theory Spec2Isabelle
  imports Main
begin

section \<open>Text\<close>

text \<open>
  A Python \<open>str\<close> is a sequence of Unicode code points. A code point is modelled as a
  natural number and a string as a list of code points, so that every string the program
  can receive is a value of the model (the default challenge texts of \<open>init_db\<close> contain
  code points above 255). \<open>ascii\<close> embeds an ASCII literal.
\<close>

type_synonym codepoint = nat
type_synonym str = "codepoint list"

definition ascii :: "string \<Rightarrow> str" where
  "ascii s = map of_char s"

text \<open>
  \<open>str.isspace()\<close> on one code point; the regular-expression class \<open>\s\<close> of a
  \<open>str\<close> pattern and \<open>str.strip()\<close> both use this predicate. The code points are
  U+0009..U+000D, U+001C..U+0020, U+0085, U+00A0, U+1680, U+2000..U+200A, U+2028, U+2029,
  U+202F, U+205F and U+3000.
\<close>

definition isspace :: "codepoint \<Rightarrow> bool" where
  "isspace c \<longleftrightarrow>
     (9 \<le> c \<and> c \<le> 13) \<or> (28 \<le> c \<and> c \<le> 32) \<or> c = 133 \<or> c = 160 \<or> c = 5760 \<or>
     (8192 \<le> c \<and> c \<le> 8202) \<or> c = 8232 \<or> c = 8233 \<or> c = 8239 \<or> c = 8287 \<or> c = 12288"

text \<open>\<open>s.strip()\<close>: leading and trailing whitespace removed.\<close>

definition strip :: "str \<Rightarrow> str" where
  "strip s = rev (dropWhile isspace (rev (dropWhile isspace s)))"

text \<open>
  \<open>re.sub(r"\s+", " ", n)\<close>: scanning from the left, every maximal run of whitespace is
  replaced by one space (U+0020).
\<close>

function sub_whitespace_runs :: "str \<Rightarrow> str" where
  "sub_whitespace_runs [] = []"
| "sub_whitespace_runs (c # cs) =
     (if isspace c then 32 # sub_whitespace_runs (dropWhile isspace cs)
      else c # sub_whitespace_runs cs)"
  by pat_completeness auto
termination
  by (relation "measure length") (auto simp: length_dropWhile_le less_Suc_eq_le)

text \<open>The characters kept by \<open>re.sub(r"[^a-zA-Z0-9 _-]", "", n)\<close>.\<close>

definition nickname_char :: "codepoint \<Rightarrow> bool" where
  "nickname_char c \<longleftrightarrow>
     (97 \<le> c \<and> c \<le> 122) \<or> (65 \<le> c \<and> c \<le> 90) \<or> (48 \<le> c \<and> c \<le> 57) \<or>
     c = 32 \<or> c = 95 \<or> c = 45"

text \<open>
  \<open>clean_nickname\<close>. The argument is \<open>None\<close> for Python's \<open>None\<close>, which
  \<open>(n or "")\<close> turns into the empty string.
\<close>

definition clean_nickname :: "str option \<Rightarrow> str" where
  "clean_nickname n =
     (let n1 = strip (case n of None \<Rightarrow> [] | Some s \<Rightarrow> s);
          n2 = sub_whitespace_runs n1;
          n3 = filter nickname_char n2
      in take 20 n3)"

text \<open>
  SQLite compares \<open>TEXT\<close> values of the default \<open>BINARY\<close> collation byte by byte in
  their UTF-8 encoding, a proper prefix being smaller; on code point sequences this is the
  lexicographic order. \<open>text_le a b\<close> is the SQL condition \<open>a <= b\<close>.
\<close>

fun text_le :: "str \<Rightarrow> str \<Rightarrow> bool" where
  "text_le [] ys = True"
| "text_le (x # xs) [] = False"
| "text_le (x # xs) (y # ys) = (x < y \<or> (x = y \<and> text_le xs ys))"

section \<open>Calendar dates\<close>

text \<open>
  A \<open>datetime.date\<close> holds a year, a month and a day. Python only builds valid dates
  (\<open>valid_date\<close>), from \<open>date.min\<close> = 0001-01-01 to \<open>date.max\<close> = 9999-12-31.
\<close>

record date =
  year :: nat
  month :: nat
  day :: nat

definition is_leap :: "nat \<Rightarrow> bool" where
  "is_leap y \<longleftrightarrow> y mod 4 = 0 \<and> (y mod 100 \<noteq> 0 \<or> y mod 400 = 0)"

definition days_in_month :: "nat \<Rightarrow> nat \<Rightarrow> nat" where
  "days_in_month y m =
     (if m = 2 then (if is_leap y then 29 else 28)
      else if m = 4 \<or> m = 6 \<or> m = 9 \<or> m = 11 then 30 else 31)"



text \<open>
  The exceptions the modelled functions can end with: \<open>OverflowError\<close> (a date out of
  range, or an integer that does not fit an SQLite \<open>INTEGER\<close>), \<open>UnicodeEncodeError\<close>
  (a string that has no UTF-8 encoding) and \<open>sqlite3.OperationalError\<close> (the database
  file cannot be opened).
\<close>

datatype py_error = OverflowError | UnicodeEncodeError | OperationalError

text \<open>
  \<open>d - timedelta(days=1)\<close>: the previous calendar day. On \<open>date.min\<close> Python raises
  \<open>OverflowError\<close> (date value out of range).
\<close>

definition date_sub_day :: "date \<Rightarrow> py_error + date" where
  "date_sub_day d =
     (if 1 < day d then Inr (d\<lparr>day := day d - 1\<rparr>)
      else if 1 < month d then
        Inr (d\<lparr>month := month d - 1, day := days_in_month (year d) (month d - 1)\<rparr>)
      else if 1 < year d then Inr (d\<lparr>year := year d - 1, month := 12, day := 31\<rparr>)
      else Inl OverflowError)"

text \<open>
  \<open>d.strftime("%Y-%m-%d")\<close> as CPython 3.11 computes it through the C library of
  Linux: the month and the day as two decimal digits, zero-padded, and the year as a plain
  decimal number, which has four digits from the year 1000 on and fewer before
  (\<open>date(999, 12, 31)\<close> gives \<open>999-12-31\<close> and \<open>date(1, 1, 1)\<close> gives \<open>1-01-01\<close>).
  A C library that pads the year differs for the years below 1000 only.
\<close>

definition digit :: "nat \<Rightarrow> codepoint" where
  "digit n = 48 + n mod 10"

definition digits2 :: "nat \<Rightarrow> str" where
  "digits2 n = [digit (n div 10), digit n]"

definition digits3 :: "nat \<Rightarrow> str" where
  "digits3 n = [digit (n div 100), digit (n div 10), digit n]"

definition digits4 :: "nat \<Rightarrow> str" where
  "digits4 n = [digit (n div 1000), digit (n div 100), digit (n div 10), digit n]"

definition format_year :: "nat \<Rightarrow> str" where
  "format_year y =
     (if y < 10 then [digit y] else if y < 100 then digits2 y
      else if y < 1000 then digits3 y else digits4 y)"

definition strftime :: "date \<Rightarrow> str" where
  "strftime d = format_year (year d) @ [45] @ digits2 (month d) @ [45] @ digits2 (day d)"

text \<open>
  The wall clock, as the program reads it: \<open>date.today()\<close> and
  \<open>now_str()\<close> (the current time formatted as \<open>%Y-%m-%d %H:%M\<close>). No function of the
  program takes either as an argument; a call reads them from its environment.
\<close>

record env =
  date_today :: date
  now_str :: str

definition today_str :: "env \<Rightarrow> str" where
  "today_str e = strftime (date_today e)"

section \<open>The database\<close>

text \<open>
  One record per table row. Every table has an \<open>id INTEGER PRIMARY KEY AUTOINCREMENT\<close>
  column that the program only uses to order rows; since no row is ever deleted, a table
  is modelled as the list of its rows in the order of their ids, and the column itself is
  left out. Columns declared without \<open>NOT NULL\<close> hold an optional value.
\<close>

record post =
  post_created_at :: str
  post_author :: str
  post_category :: str
  post_title :: str
  post_body :: str

record reply =
  post_id :: int
  reply_created_at :: str
  reply_author :: str
  reply_body :: str

record challenge =
  code :: str
  title :: str
  category :: str
  instruction :: str
  seconds :: int

record challenge_log =
  log_date :: str
  author :: str
  challenge_code :: str
  completed :: int
  created_at :: str

record daily_reflection =
  ref_log_date :: str
  ref_author :: str
  win :: "str option"
  stress_shift :: "str option"
  ref_note :: "str option"
  ref_created_at :: str

record database =
  posts :: "post list"
  replies :: "reply list"
  challenges :: "challenge list"
  challenge_logs :: "challenge_log list"
  daily_reflections :: "daily_reflection list"

text \<open>A new database file, once the \<open>CREATE TABLE IF NOT EXISTS\<close> statements have run.\<close>

definition empty_database :: database where
  "empty_database =
     \<lparr>posts = [], replies = [], challenges = [], challenge_logs = [], daily_reflections = []\<rparr>"

definition default_challenges :: "challenge list" where
  "default_challenges =
    [\<lparr>code = ascii ''CHALLENGE_MINDSET'', title = ascii ''Challenge mindset'',
      category = ascii ''Stress '' @ [8594] @ ascii '' Performance'',
      instruction =
        ascii ''Pick ONE moment today to reframe as a challenge (not a threat). Say: '' @
        [8220] @ ascii ''I'' @ [8217] @ ascii ''m excited'' @ [8221] @ ascii '' or '' @
        [8220] @ ascii ''This is practice.'' @ [8221],
      seconds = 60\<rparr>,
     \<lparr>code = ascii ''BREATH_RESET'', title = ascii ''30-second breathing reset'',
      category = ascii ''Stress '' @ [8594] @ ascii '' Performance'',
      instruction =
        ascii ''Breathe in for 5, out for 5 (or 6) for 3 cycles. Use before meetings/classes.'',
      seconds = 45\<rparr>,
     \<lparr>code = ascii ''SMALL_GOAL'', title = ascii ''Small goal (finishable)'',
      category = ascii ''Momentum'',
      instruction =
        ascii ''Write ONE small task you will finish today. When done, take 2 minutes to enjoy the win.'',
      seconds = 90\<rparr>,
     \<lparr>code = ascii ''MOVE_10'', title = ascii ''10-minute brisk walk'',
      category = ascii ''Brain boost'',
      instruction =
        ascii ''Move for 10 minutes (walk counts). Outdoor if possible. Aim to reset your head, not smash a workout.'',
      seconds = 600\<rparr>,
     \<lparr>code = ascii ''SINGLE_TASK'', title = ascii ''Single-task focus'',
      category = ascii ''Workload'',
      instruction = ascii ''Turn off notifications for 20 minutes and do ONE thing properly.'',
      seconds = 1200\<rparr>,
     \<lparr>code = ascii ''POSTURE_CHECK'', title = ascii ''Posture check'',
      category = ascii ''Energy'',
      instruction = ascii ''Sit tall / shoulders open for 60 seconds. Head up. Reset your state.'',
      seconds = 60\<rparr>,
     \<lparr>code = ascii ''RIGHT_HAND_SQUEEZE'', title = ascii ''Right-hand squeeze'',
      category = ascii ''Confidence'',
      instruction =
        ascii ''Squeeze your right hand firmly for ~45 seconds before a stressful moment (call / presentation).'',
      seconds = 45\<rparr>,
     \<lparr>code = ascii ''PAUSE_BETWEEN'', title = ascii ''Pause between tasks'',
      category = ascii ''Attention'',
      instruction =
        ascii ''Take a 2'' @ [8211] @
        ascii ''5 minute pause between tasks (breathing / stretch / short reset) instead of rushing.'',
      seconds = 180\<rparr>]"

text \<open>
  \<open>INSERT OR IGNORE INTO challenges\<close>: the row is appended unless it violates
  \<open>UNIQUE(code)\<close>, in which case the statement does nothing.
\<close>

definition insert_or_ignore_challenge :: "database \<Rightarrow> challenge \<Rightarrow> database" where
  "insert_or_ignore_challenge db c =
     (if code c \<in> set (map code (challenges db)) then db
      else db\<lparr>challenges := challenges db @ [c]\<rparr>)"

text \<open>\<open>init_db\<close> on an existing database: the tables stay, the seeding loop runs.\<close>

definition init_db :: "database \<Rightarrow> database" where
  "init_db db = foldl insert_or_ignore_challenge db default_challenges"

section \<open>Community helpers\<close>

text \<open>
  \<open>require_nickname_or_stop\<close> is the only check of the nickname: the page code calls it
  before it writes, and the script stops when the nickname is blank.
\<close>

datatype script = Continue | Stop

definition require_nickname_or_stop :: "str \<Rightarrow> script" where
  "require_nickname_or_stop nickname = (if strip nickname = [] then Stop else Continue)"

definition add_post :: "env \<Rightarrow> database \<Rightarrow> str \<Rightarrow> str \<Rightarrow> str \<Rightarrow> str \<Rightarrow> database" where
  "add_post e db author' category' title' body =
     db\<lparr>posts := posts db @
       [\<lparr>post_created_at = now_str e, post_author = author', post_category = category',
         post_title = strip title', post_body = strip body\<rparr>]\<rparr>"

definition add_reply :: "env \<Rightarrow> database \<Rightarrow> int \<Rightarrow> str \<Rightarrow> str \<Rightarrow> database" where
  "add_reply e db post_id' author' body =
     db\<lparr>replies := replies db @
       [\<lparr>post_id = post_id', reply_created_at = now_str e, reply_author = author',
         reply_body = strip body\<rparr>]\<rparr>"

section \<open>Challenge helpers\<close>

definition fetch_challenges :: "database \<Rightarrow> challenge list" where
  "fetch_challenges db = challenges db"

text \<open>
  \<open>fetch_user_logs\<close> builds a dictionary from the selected rows in order, a later row
  replacing an earlier one with the same code.
\<close>

definition fetch_user_logs :: "database \<Rightarrow> str \<Rightarrow> str \<Rightarrow> (str \<rightharpoonup> int)" where
  "fetch_user_logs db author' log_date' =
     foldl (\<lambda>m r. m(challenge_code r \<mapsto> completed r)) Map.empty
       (filter (\<lambda>r. author r = author' \<and> log_date r = log_date') (challenge_logs db))"

text \<open>
  \<open>set_challenge_completion\<close>: \<open>INSERT ... ON CONFLICT(log_date, author, challenge_code)
  DO UPDATE SET completed = excluded.completed, created_at = excluded.created_at\<close>. When a
  row with the same three key columns exists, that row gets the new \<open>completed\<close> and
  \<open>created_at\<close>; otherwise the new row is appended. The function checks none of its
  arguments. This is what a call does to the database once sqlite3 has taken the
  parameters of the statement; \<open>set_challenge_completion_call\<close> below is the call with
  the exceptions that can end it before.
\<close>

definition log_conflict :: "str \<Rightarrow> str \<Rightarrow> str \<Rightarrow> challenge_log \<Rightarrow> bool" where
  "log_conflict log_date' author' challenge_code' r \<longleftrightarrow>
     log_date r = log_date' \<and> author r = author' \<and> challenge_code r = challenge_code'"

definition set_challenge_completion ::
  "env \<Rightarrow> database \<Rightarrow> str \<Rightarrow> str \<Rightarrow> str \<Rightarrow> int \<Rightarrow> database" where
  "set_challenge_completion e db author' log_date' challenge_code' completed' =
     (if list_ex (log_conflict log_date' author' challenge_code') (challenge_logs db)
      then db\<lparr>challenge_logs :=
             map (\<lambda>r. if log_conflict log_date' author' challenge_code' r
                       then r\<lparr>completed := completed', created_at := now_str e\<rparr> else r)
               (challenge_logs db)\<rparr>
      else db\<lparr>challenge_logs := challenge_logs db @
             [\<lparr>log_date = log_date', author = author', challenge_code = challenge_code',
               completed = completed', created_at = now_str e\<rparr>]\<rparr>)"

text \<open>
  The dictionary \<open>fetch_reflection\<close> returns, with its three keys \<open>win\<close>,
  \<open>stress_shift\<close> and \<open>note\<close>.
\<close>

record reflection =
  get_win :: str
  get_stress_shift :: str
  get_note :: str

text \<open>\<open>x or ""\<close> on a column value: \<open>NULL\<close> and the empty string give the empty string.\<close>

definition or_empty :: "str option \<Rightarrow> str" where
  "or_empty x = (case x of None \<Rightarrow> [] | Some s \<Rightarrow> s)"

text \<open>\<open>fetch_reflection\<close>: \<open>fetchone()\<close> gives the first selected row, if any.\<close>

definition fetch_reflection :: "database \<Rightarrow> str \<Rightarrow> str \<Rightarrow> reflection" where
  "fetch_reflection db author' log_date' =
     (case filter (\<lambda>r. ref_author r = author' \<and> ref_log_date r = log_date')
             (daily_reflections db) of
        [] \<Rightarrow> \<lparr>get_win = [], get_stress_shift = [], get_note = []\<rparr>
      | row # _ \<Rightarrow>
          \<lparr>get_win = or_empty (win row), get_stress_shift = or_empty (stress_shift row),
            get_note = or_empty (ref_note row)\<rparr>)"

definition reflection_conflict :: "str \<Rightarrow> str \<Rightarrow> daily_reflection \<Rightarrow> bool" where
  "reflection_conflict log_date' author' r \<longleftrightarrow> ref_log_date r = log_date' \<and> ref_author r = author'"

text \<open>
  \<open>save_reflection\<close>: the same upsert on \<open>(log_date, author)\<close>, with the three texts
  stripped; \<open>save_reflection_call\<close> below is the call with its exceptions.
\<close>

definition save_reflection ::
  "env \<Rightarrow> database \<Rightarrow> str \<Rightarrow> str \<Rightarrow> str \<Rightarrow> str \<Rightarrow> str \<Rightarrow> database" where
  "save_reflection e db author' log_date' win' stress_shift' note' =
     (if list_ex (reflection_conflict log_date' author') (daily_reflections db)
      then db\<lparr>daily_reflections :=
             map (\<lambda>r. if reflection_conflict log_date' author' r
                       then r\<lparr>win := Some (strip win'), stress_shift := Some (strip stress_shift'),
                              ref_note := Some (strip note'), ref_created_at := now_str e\<rparr>
                       else r)
               (daily_reflections db)\<rparr>
      else db\<lparr>daily_reflections := daily_reflections db @
             [\<lparr>ref_log_date = log_date', ref_author = author', win = Some (strip win'),
               stress_shift = Some (strip stress_shift'), ref_note = Some (strip note'),
               ref_created_at = now_str e\<rparr>]\<rparr>)"

section \<open>Calls and their exceptions\<close>

text \<open>
  A writing function first opens the database file (\<open>get_conn\<close>); when the file cannot
  be opened, \<open>sqlite3.connect\<close> raises \<open>sqlite3.OperationalError\<close>. Then
  \<open>cur.execute\<close> binds the parameters of the statement in their order, and the first one
  that sqlite3 cannot take ends the call: a \<open>str\<close> with a lone surrogate (U+D800 to
  U+DFFF) has no UTF-8 encoding and raises \<open>UnicodeEncodeError\<close>; an \<open>int\<close> outside the
  signed 64-bit range raises \<open>OverflowError\<close>. The source catches none of these, and
  in each case the statement has not run. The store is \<open>None\<close> when it cannot be opened.
\<close>

definition surrogate :: "codepoint \<Rightarrow> bool" where
  "surrogate c \<longleftrightarrow> 55296 \<le> c \<and> c \<le> 57343"

definition bind_text :: "str \<Rightarrow> py_error option" where
  "bind_text s = (if list_ex surrogate s then Some UnicodeEncodeError else None)"


fun first_error :: "py_error option list \<Rightarrow> py_error option" where
  "first_error [] = None"
| "first_error (None # rs) = first_error rs"
| "first_error (Some err # rs) = Some err"


definition save_reflection_call ::
  "env \<Rightarrow> database option \<Rightarrow> str \<Rightarrow> str \<Rightarrow> str \<Rightarrow> str \<Rightarrow> str \<Rightarrow> py_error + database" where
  "save_reflection_call e store author' log_date' win' stress_shift' note' =
     (case store of
        None \<Rightarrow> Inl OperationalError
      | Some db \<Rightarrow>
          (case first_error
                  [bind_text log_date', bind_text author', bind_text (strip win'),
                   bind_text (strip stress_shift'), bind_text (strip note'),
                   bind_text (now_str e)] of
             Some err \<Rightarrow> Inl err
           | None \<Rightarrow> Inr (save_reflection e db author' log_date' win' stress_shift' note')))"

section \<open>Streak and counts\<close>

text \<open>
  The rows of \<open>SELECT DISTINCT log_date FROM challenge_logs WHERE author = ? AND
  completed = 1\<close>.
\<close>

definition select_completed_dates :: "database \<Rightarrow> str \<Rightarrow> str list" where
  "select_completed_dates db author' =
     remdups (map log_date
       (filter (\<lambda>r. author r = author' \<and> completed r = 1) (challenge_logs db)))"

lemma date_sub_day_decreases:
  "date_sub_day d = Inr d' \<Longrightarrow>
     ((year d', month d', day d'), (year d, month d, day d))
       \<in> less_than <*lex*> less_than <*lex*> less_than"
  by (auto simp: date_sub_day_def split: if_splits)

text \<open>
  The \<open>while True\<close> loop of \<open>compute_streak\<close>. It ends at the first day whose formatted
  date is not in the set, or with the \<open>OverflowError\<close> of the subtraction on
  \<open>date.min\<close>.
\<close>

function streak_loop :: "str set \<Rightarrow> date \<Rightarrow> int \<Rightarrow> py_error + int" where
  "streak_loop completed_dates d streak =
     (let ds = strftime d in
      if ds \<in> completed_dates then
        (case date_sub_day d of
           Inl err \<Rightarrow> Inl err
         | Inr d' \<Rightarrow> streak_loop completed_dates d' (streak + 1))
      else Inr streak)"
  by pat_completeness auto
termination
  by (relation "inv_image (less_than <*lex*> less_than <*lex*> less_than)
        (\<lambda>(s, d, n). (year d, month d, day d))")
     (auto dest: date_sub_day_decreases)

declare streak_loop.simps [simp del]

text \<open>\<open>compute_streak\<close> takes the author only; it starts the walk at \<open>date.today()\<close>.\<close>

definition compute_streak :: "env \<Rightarrow> database \<Rightarrow> str \<Rightarrow> py_error + int" where
  "compute_streak e db author' =
     streak_loop (set (select_completed_dates db author')) (date_today e) 0"

definition completed_count_in_range :: "database \<Rightarrow> str \<Rightarrow> date \<Rightarrow> date \<Rightarrow> int" where
  "completed_count_in_range db author' start_date end_date =
     int (length (filter
       (\<lambda>r. author r = author' \<and> completed r = 1 \<and>
            text_le (strftime start_date) (log_date r) \<and>
            text_le (log_date r) (strftime end_date))
       (challenge_logs db)))"

definition daily_completion_total :: "database \<Rightarrow> str \<Rightarrow> str \<Rightarrow> int" where
  "daily_completion_total db author' log_date' =
     int (length (filter
       (\<lambda>r. author r = author' \<and> log_date r = log_date' \<and> completed r = 1)
       (challenge_logs db)))"

section \<open>Notions of the specification\<close>

text \<open>
  Collapsing whitespace runs to a single space, in two passes: every whitespace character
  becomes a space, then a space that is followed by a space is dropped.
\<close>

definition whitespace_to_space :: "codepoint \<Rightarrow> codepoint" where
  "whitespace_to_space c = (if isspace c then 32 else c)"

fun squeeze_spaces :: "str \<Rightarrow> str" where
  "squeeze_spaces (x # y # zs) =
     (if x = 32 \<and> y = 32 then squeeze_spaces (y # zs) else x # squeeze_spaces (y # zs))"
| "squeeze_spaces xs = xs"

text \<open>
  The calendar days from a date backwards, one day at a time: the date itself, the day
  before, and so on down to the first day of the calendar.
\<close>

function days_back_from :: "date \<Rightarrow> date list" where
  "days_back_from d =
     d # (case date_sub_day d of Inl err \<Rightarrow> [] | Inr d' \<Rightarrow> days_back_from d')"
  by pat_completeness auto
termination
  by (relation "inv_image (less_than <*lex*> less_than <*lex*> less_than)
        (\<lambda>d. (year d, month d, day d))")
     (auto dest: date_sub_day_decreases)

declare days_back_from.simps [simp del]

text \<open>
  The streak of the specification: given the set of dates with a completion and a
  reference date, the number of days counted when walking backwards from the reference
  date while the current day is in the set.
\<close>

definition completion_dates :: "database \<Rightarrow> str \<Rightarrow> str set" where
  "completion_dates db user_label =
     log_date ` set (filter (\<lambda>r. author r = user_label \<and> completed r = 1) (challenge_logs db))"

definition streak_walk :: "str set \<Rightarrow> date \<Rightarrow> int" where
  "streak_walk dates as_of =
     int (length (takeWhile (\<lambda>d. strftime d \<in> dates) (days_back_from as_of)))"

text \<open>The uniqueness constraints of the three keyed tables.\<close>

definition log_key :: "challenge_log \<Rightarrow> str \<times> str \<times> str" where
  "log_key r = (log_date r, author r, challenge_code r)"

definition reflection_key :: "daily_reflection \<Rightarrow> str \<times> str" where
  "reflection_key r = (ref_log_date r, ref_author r)"

definition unique_rows :: "database \<Rightarrow> bool" where
  "unique_rows db \<longleftrightarrow>
     distinct (map code (challenges db)) \<and>
     distinct (map log_key (challenge_logs db)) \<and>
     distinct (map reflection_key (daily_reflections db))"

text \<open>
  The database states the program can reach: the script runs \<open>init_db\<close> on a new file,
  and then any of its writing functions, \<open>init_db\<close> again at every rerun of the script.
  The reading functions leave the database as it is.
\<close>

inductive reachable :: "database \<Rightarrow> bool" where
  fresh: "reachable (init_db empty_database)"
| rerun: "reachable db \<Longrightarrow> reachable (init_db db)"
| post: "reachable db \<Longrightarrow> reachable (add_post e db a c t b)"
| reply: "reachable db \<Longrightarrow> reachable (add_reply e db i a b)"
| completion: "reachable db \<Longrightarrow> reachable (set_challenge_completion e db a d c v)"
| reflection: "reachable db \<Longrightarrow> reachable (save_reflection e db a d w s n)"

section \<open>Example data\<close>

definition jan_2024 :: "nat \<Rightarrow> date" where
  "jan_2024 n = \<lparr>year = 2024, month = 1, day = n\<rparr>"

definition clock_on :: "date \<Rightarrow> env" where
  "clock_on d = \<lparr>date_today = d, now_str = strftime d @ ascii '' 09:00''\<rparr>"

definition ms_h :: str where
  "ms_h = ascii ''MsH''"

definition old_catalog :: database where
  "old_catalog = empty_database\<lparr>challenges :=
     [\<lparr>code = ascii ''MOVE_10'', title = ascii ''Walk'', category = ascii ''Old'',
       instruction = ascii ''Walk.'', seconds = 300\<rparr>]\<rparr>"

definition three_days :: database where
  "three_days =
     foldl (\<lambda>db n. set_challenge_completion (clock_on (jan_2024 n)) db ms_h
                      (strftime (jan_2024 n)) (ascii ''MOVE_10'') 1)
       (init_db empty_database) [1, 2, 3]"


definition year_1000 :: database where
  "year_1000 =
     set_challenge_completion (clock_on \<lparr>year = 1000, month = 1, day = 1\<rparr>) empty_database
       ms_h (strftime \<lparr>year = 1000, month = 1, day = 1\<rparr>) (ascii ''MOVE_10'') 1"

definition gap_days :: database where
  "gap_days =
     foldl (\<lambda>db n. set_challenge_completion (clock_on (jan_2024 n)) db ms_h
                      (strftime (jan_2024 n)) (ascii ''MOVE_10'') 1)
       (init_db empty_database) [1, 3]"

section \<open>Evaluating dates\<close>

lemmas date_eval =
  jan_2024_def clock_on_def strftime_def format_year_def digits4_def digits3_def digits2_def
  digit_def date_sub_day_def
  days_in_month_def is_leap_def ascii_def

section \<open>The nickname normaliser\<close>

lemma strip_Nil: "strip [] = []"
  by (simp add: strip_def)

text \<open>
  \<open>strip\<close> removes a block of whitespace at each end, and what it returns neither
  begins nor ends with whitespace.
\<close>

lemma strip_decompose:
  "\<exists>l r. w = l @ strip w @ r \<and> list_all isspace l \<and> list_all isspace r"
proof -
  let ?t = "dropWhile isspace w"
  have 1: "w = takeWhile isspace w @ ?t" by simp
  have "rev ?t = takeWhile isspace (rev ?t) @ dropWhile isspace (rev ?t)" by simp
  then have "?t = rev (dropWhile isspace (rev ?t)) @ rev (takeWhile isspace (rev ?t))"
    by (metis rev_append rev_rev_ident)
  then have 2: "?t = strip w @ rev (takeWhile isspace (rev ?t))"
    by (simp add: strip_def)
  have "w = takeWhile isspace w @ strip w @ rev (takeWhile isspace (rev ?t))"
    using 1 2 by metis
  moreover have "list_all isspace (takeWhile isspace w)"
    by (simp add: list_all_iff) (meson set_takeWhileD)
  moreover have "list_all isspace (rev (takeWhile isspace (rev ?t)))"
    by (simp add: list_all_iff) (meson set_takeWhileD)
  ultimately show ?thesis by blast
qed

lemma strip_ends:
  "strip w = [] \<or> (\<not> isspace (hd (strip w)) \<and> \<not> isspace (last (strip w)))"
proof (cases "strip w = []")
  case True
  then show ?thesis by simp
next
  case False
  let ?t = "dropWhile isspace w"
  let ?u = "dropWhile isspace (rev ?t)"
  from False have u: "?u \<noteq> []" by (simp add: strip_def)
  then have "\<not> isspace (hd ?u)" by (rule hd_dropWhile)
  then have l: "\<not> isspace (last (strip w))"
    using u by (simp add: strip_def last_rev)
  have t: "?t \<noteq> []"
  proof
    assume "?t = []"
    then have "?u = []" by (metis dropWhile.simps(1) rev.simps(1))
    with u show False by (rule notE)
  qed
  then have ht: "\<not> isspace (hd ?t)" by (rule hd_dropWhile)
  have "hd (strip w) = last ?u" using u by (simp add: strip_def hd_rev)
  also have "\<dots> = last (rev ?t)"
    using u by (metis last_appendR takeWhile_dropWhile_id)
  also have "\<dots> = hd ?t" using t by (simp add: last_rev)
  finally show ?thesis using ht l by simp
qed

text \<open>
  \<open>sub_whitespace_runs\<close> is the two-pass collapse of whitespace runs; it keeps the other
  characters, leaves no whitespace but the space and no two whitespace characters side by
  side.
\<close>

lemma space_is_whitespace: "isspace 32"
  by (simp add: isspace_def)

lemma squeeze_other: "c \<noteq> 32 \<Longrightarrow> squeeze_spaces (c # xs) = c # squeeze_spaces xs"
  by (cases xs) simp_all

lemma squeeze_after_space:
  "squeeze_spaces (32 # map whitespace_to_space cs) =
     32 # squeeze_spaces (map whitespace_to_space (dropWhile isspace cs))"
proof (induction cs)
  case Nil
  then show ?case by simp
next
  case (Cons x xs)
  show ?case
  proof (cases "isspace x")
    case True
    then have "whitespace_to_space x = 32" by (simp add: whitespace_to_space_def)
    with True Cons show ?thesis by simp
  next
    case False
    then have "x \<noteq> 32" using space_is_whitespace by auto
    moreover from False have "whitespace_to_space x = x" by (simp add: whitespace_to_space_def)
    ultimately show ?thesis using False by simp
  qed
qed

lemma sub_whitespace_runs_two_pass:
  "sub_whitespace_runs s = squeeze_spaces (map whitespace_to_space s)"
proof (induction s rule: sub_whitespace_runs.induct)
  case 1
  then show ?case by simp
next
  case (2 c cs)
  show ?case
  proof (cases "isspace c")
    case True
    then have "whitespace_to_space c = 32" by (simp add: whitespace_to_space_def)
    with True 2 show ?thesis
      by (simp add: squeeze_after_space)
  next
    case False
    then have "c \<noteq> 32" using space_is_whitespace by auto
    moreover from False have "whitespace_to_space c = c" by (simp add: whitespace_to_space_def)
    ultimately show ?thesis using False 2
      by (simp add: squeeze_other)
  qed
qed

lemma filter_not_dropWhile: "filter (\<lambda>c. \<not> P c) (dropWhile P xs) = filter (\<lambda>c. \<not> P c) xs"
  by (induction xs) simp_all

lemma sub_whitespace_runs_keeps_others:
  "filter (\<lambda>c. \<not> isspace c) (sub_whitespace_runs s) = filter (\<lambda>c. \<not> isspace c) s"
  by (induction s rule: sub_whitespace_runs.induct)
     (simp_all add: space_is_whitespace filter_not_dropWhile)

lemma sub_whitespace_runs_only_spaces:
  "list_all (\<lambda>c. c = 32 \<or> \<not> isspace c) (sub_whitespace_runs s)"
  by (induction s rule: sub_whitespace_runs.induct) simp_all

lemma sub_whitespace_runs_hd:
  "s \<noteq> [] \<Longrightarrow> \<not> isspace (hd s) \<Longrightarrow>
   sub_whitespace_runs s \<noteq> [] \<and> hd (sub_whitespace_runs s) = hd s"
  by (cases s) simp_all

lemma sub_whitespace_runs_no_adjacent:
  "successively (\<lambda>a b. \<not> (isspace a \<and> isspace b)) (sub_whitespace_runs s)"
proof (induction s rule: sub_whitespace_runs.induct)
  case 1
  then show ?case by simp
next
  case (2 c cs)
  show ?case
  proof (cases "isspace c")
    case True
    let ?t = "dropWhile isspace cs"
    from True have step: "sub_whitespace_runs (c # cs) = 32 # sub_whitespace_runs ?t"
      by simp
    show ?thesis
    proof (cases "?t = []")
      case t: True
      show ?thesis unfolding step t by simp
    next
      case t: False
      then have "\<not> isspace (hd ?t)" by (rule hd_dropWhile)
      with t have "sub_whitespace_runs ?t \<noteq> [] \<and> hd (sub_whitespace_runs ?t) = hd ?t"
        by (rule sub_whitespace_runs_hd)
      with True 2 \<open>\<not> isspace (hd ?t)\<close> show ?thesis
        unfolding step by (simp add: successively_Cons)
    qed
  next
    case False
    with 2 show ?thesis by (simp add: successively_Cons)
  qed
qed

text \<open>
  C7, as amended. \<open>clean_nickname\<close> is total and is the composition, in this order, of
  four steps, each on the result of the one before: removing the leading and the trailing
  whitespace; replacing every maximal run of whitespace by one space; deleting every
  character outside \<open>[A-Za-z0-9 _-]\<close>; keeping the first 20 characters. The result is
  not trimmed or collapsed again. Every output consists of at most 20 characters of the
  class, and the empty input (like \<open>None\<close>) gives the empty output.
\<close>

theorem clean_nickname_steps:
  "clean_nickname (Some raw) =
     take 20 (filter nickname_char (squeeze_spaces (map whitespace_to_space (strip raw))))
   \<and> (\<exists>l r. raw = l @ strip raw @ r \<and> list_all isspace l \<and> list_all isspace r)
   \<and> (strip raw = [] \<or> (\<not> isspace (hd (strip raw)) \<and> \<not> isspace (last (strip raw))))
   \<and> sub_whitespace_runs s = squeeze_spaces (map whitespace_to_space s)
   \<and> filter (\<lambda>c. \<not> isspace c) (sub_whitespace_runs s) = filter (\<lambda>c. \<not> isspace c) s
   \<and> list_all (\<lambda>c. c = 32 \<or> \<not> isspace c) (sub_whitespace_runs s)
   \<and> successively (\<lambda>a b. \<not> (isspace a \<and> isspace b)) (sub_whitespace_runs s)
   \<and> length (clean_nickname n) \<le> 20
   \<and> list_all nickname_char (clean_nickname n)
   \<and> clean_nickname (Some []) = []
   \<and> clean_nickname None = []"
proof -
  have "clean_nickname (Some raw) =
     take 20 (filter nickname_char (squeeze_spaces (map whitespace_to_space (strip raw))))"
    by (simp add: clean_nickname_def sub_whitespace_runs_two_pass)
  moreover have "length (clean_nickname n) \<le> 20"
    by (simp add: clean_nickname_def)
  moreover have "list_all nickname_char (clean_nickname n)"
    by (auto simp: clean_nickname_def list_all_iff dest: in_set_takeD)
  moreover have "clean_nickname (Some []) = []" "clean_nickname None = []"
    by (simp_all add: clean_nickname_def strip_Nil)
  ultimately show ?thesis
    using strip_decompose [of raw] strip_ends [of raw] sub_whitespace_runs_two_pass [of s]
      sub_whitespace_runs_keeps_others [of s] sub_whitespace_runs_only_spaces [of s]
      sub_whitespace_runs_no_adjacent [of s]
    by blast
qed

text \<open>
  The claim as stated fails when read of the output: deleting comes after collapsing and
  trimming, so "a ! b" gives "a  b", with two spaces side by side, and "! a" gives " a",
  which begins with a space.
\<close>

theorem clean_nickname_untrimmed_counterexample:
  "clean_nickname (Some (ascii ''a ! b'')) = ascii ''a  b''
   \<and> \<not> successively (\<lambda>a b. \<not> (isspace a \<and> isspace b)) (clean_nickname (Some (ascii ''a ! b'')))
   \<and> clean_nickname (Some (ascii ''! a'')) = ascii '' a''
   \<and> isspace (hd (clean_nickname (Some (ascii ''! a''))))"
  by (simp add: clean_nickname_def strip_def isspace_def nickname_char_def ascii_def)

section \<open>Counts\<close>

lemma text_le_refl: "text_le a a"
  by (induction a) auto

lemma text_le_antisym: "text_le a b \<Longrightarrow> text_le b a \<Longrightarrow> a = b"
proof (induction a b rule: text_le.induct)
  case (1 ys)
  then show ?case by (cases ys) simp_all
next
  case (2 x xs)
  then show ?case by simp
next
  case (3 x xs y ys)
  then show ?case by auto
qed

lemma text_le_both: "text_le a b \<and> text_le b a \<longleftrightarrow> a = b"
  using text_le_refl text_le_antisym by blast

text \<open>
  C9. For every user and every date, the daily total of the formatted date is the count
  over the range that starts and ends on that date.
\<close>

theorem daily_total_is_single_day_range:
  "daily_completion_total db u (strftime d) = completed_count_in_range db u d d"
proof -
  have "filter (\<lambda>r. author r = u \<and> log_date r = strftime d \<and> completed r = 1)
          (challenge_logs db) =
        filter (\<lambda>r. author r = u \<and> completed r = 1 \<and> text_le (strftime d) (log_date r) \<and>
              text_le (log_date r) (strftime d)) (challenge_logs db)"
    by (rule filter_cong) (auto simp: text_le_refl dest: text_le_antisym)
  then show ?thesis
    unfolding daily_completion_total_def completed_count_in_range_def by (rule arg_cong)
qed

section \<open>Uniqueness of rows\<close>

lemma log_keys_set_completion:
  "map log_key (challenge_logs (set_challenge_completion e db a d c v)) =
     (if (d, a, c) \<in> set (map log_key (challenge_logs db))
      then map log_key (challenge_logs db)
      else map log_key (challenge_logs db) @ [(d, a, c)])"
  by (auto simp: set_challenge_completion_def list_ex_iff log_conflict_def log_key_def)

lemma reflection_keys_save:
  "map reflection_key (daily_reflections (save_reflection e db a d w s n)) =
     (if (d, a) \<in> set (map reflection_key (daily_reflections db))
      then map reflection_key (daily_reflections db)
      else map reflection_key (daily_reflections db) @ [(d, a)])"
  by (auto simp: save_reflection_def list_ex_iff reflection_conflict_def reflection_key_def)

lemma codes_insert_or_ignore:
  "map code (challenges (insert_or_ignore_challenge db c)) =
     (if code c \<in> set (map code (challenges db)) then map code (challenges db)
      else map code (challenges db) @ [code c])"
  by (simp add: insert_or_ignore_challenge_def)

lemma insert_or_ignore_other_tables:
  "challenge_logs (insert_or_ignore_challenge db c) = challenge_logs db"
  "daily_reflections (insert_or_ignore_challenge db c) = daily_reflections db"
  "posts (insert_or_ignore_challenge db c) = posts db"
  "replies (insert_or_ignore_challenge db c) = replies db"
  by (simp_all add: insert_or_ignore_challenge_def)

lemma unique_insert_or_ignore:
  "unique_rows db \<Longrightarrow> unique_rows (insert_or_ignore_challenge db c)"
  by (simp add: unique_rows_def codes_insert_or_ignore insert_or_ignore_other_tables)

lemma unique_foldl_insert:
  "unique_rows db \<Longrightarrow> unique_rows (foldl insert_or_ignore_challenge db cs)"
  by (induction cs arbitrary: db) (simp_all add: unique_insert_or_ignore)

lemma unique_init_db: "unique_rows db \<Longrightarrow> unique_rows (init_db db)"
  by (simp add: init_db_def unique_foldl_insert)

lemma unique_empty: "unique_rows empty_database"
  by (simp add: unique_rows_def empty_database_def)

lemma unique_set_completion:
  "unique_rows db \<Longrightarrow> unique_rows (set_challenge_completion e db a d c v)"
  unfolding unique_rows_def log_keys_set_completion
  by (simp add: set_challenge_completion_def)

lemma unique_save_reflection:
  "unique_rows db \<Longrightarrow> unique_rows (save_reflection e db a d w s n)"
  unfolding unique_rows_def reflection_keys_save
  by (simp add: save_reflection_def)

lemma unique_add_post: "unique_rows db \<Longrightarrow> unique_rows (add_post e db a c t b)"
  by (simp add: unique_rows_def add_post_def)

lemma unique_add_reply: "unique_rows db \<Longrightarrow> unique_rows (add_reply e db i a b)"
  by (simp add: unique_rows_def add_reply_def)

lemma reachable_unique: "reachable db \<Longrightarrow> unique_rows db"
  by (induction rule: reachable.induct)
     (simp_all add: unique_init_db unique_empty unique_set_completion unique_save_reflection
        unique_add_post unique_add_reply)

lemma distinct_key_filter:
  "distinct (map f xs) \<Longrightarrow> length (filter (\<lambda>x. f x = k) xs) \<le> 1"
proof (induction xs)
  case Nil
  then show ?case by simp
next
  case (Cons x xs)
  show ?case
  proof (cases "f x = k")
    case True
    from Cons.prems have "f x \<notin> f ` set xs" by simp
    with True have "\<forall>y\<in>set xs. f y \<noteq> k" by (metis imageI)
    then have "filter (\<lambda>y. f y = k) xs = []"
      by (simp add: filter_empty_conv)
    with True show ?thesis by simp
  next
    case False
    with Cons show ?thesis by simp
  qed
qed

lemma log_conflict_key: "log_conflict d u c = (\<lambda>r. log_key r = (d, u, c))"
  by (auto simp: log_conflict_def log_key_def fun_eq_iff)

lemma reflection_conflict_key: "reflection_conflict d u = (\<lambda>r. reflection_key r = (d, u))"
  by (auto simp: reflection_conflict_def reflection_key_def fun_eq_iff)

text \<open>
  C4. In every reachable state of the database there is at most one completion log row
  for a date, a user and a challenge code, and at most one reflection row for a date and a
  user. The reachable states are closed under every function that writes.
\<close>

theorem reachable_rows_unique:
  assumes "reachable db"
  shows "length (filter (log_conflict d u c) (challenge_logs db)) \<le> 1
       \<and> length (filter (reflection_conflict d u) (daily_reflections db)) \<le> 1"
proof -
  from reachable_unique [OF assms]
  have logs: "distinct (map log_key (challenge_logs db))"
    and refs: "distinct (map reflection_key (daily_reflections db))"
    by (simp_all add: unique_rows_def)
  show ?thesis
    unfolding log_conflict_key reflection_conflict_key
    using distinct_key_filter [OF logs] distinct_key_filter [OF refs] by blast
qed

theorem reachable_rows_unique_witness:
  "reachable (save_reflection (clock_on (jan_2024 3))
      (set_challenge_completion (clock_on (jan_2024 3)) (init_db empty_database)
         ms_h (strftime (jan_2024 3)) (ascii ''MOVE_10'') 1)
      ms_h (strftime (jan_2024 3)) (ascii ''a'') (ascii ''b'') (ascii ''c''))
   \<and> length (filter (log_conflict (strftime (jan_2024 3)) ms_h (ascii ''MOVE_10''))
        (challenge_logs (save_reflection (clock_on (jan_2024 3))
          (set_challenge_completion (clock_on (jan_2024 3)) (init_db empty_database)
             ms_h (strftime (jan_2024 3)) (ascii ''MOVE_10'') 1)
          ms_h (strftime (jan_2024 3)) (ascii ''a'') (ascii ''b'') (ascii ''c'')))) \<le> 1
   \<and> length (filter (reflection_conflict (strftime (jan_2024 3)) ms_h)
        (daily_reflections (save_reflection (clock_on (jan_2024 3))
          (set_challenge_completion (clock_on (jan_2024 3)) (init_db empty_database)
             ms_h (strftime (jan_2024 3)) (ascii ''MOVE_10'') 1)
          ms_h (strftime (jan_2024 3)) (ascii ''a'') (ascii ''b'') (ascii ''c'')))) \<le> 1"
proof -
  have r: "reachable (save_reflection (clock_on (jan_2024 3))
      (set_challenge_completion (clock_on (jan_2024 3)) (init_db empty_database)
         ms_h (strftime (jan_2024 3)) (ascii ''MOVE_10'') 1)
      ms_h (strftime (jan_2024 3)) (ascii ''a'') (ascii ''b'') (ascii ''c''))"
    by (intro reachable.intros)
  from reachable_rows_unique [OF r] r show ?thesis by blast
qed

section \<open>Completion logs\<close>

lemma filter_singleton:
  assumes "length (filter P xs) \<le> 1" and "list_ex P xs"
  obtains r where "filter P xs = [r]" and "P r"
proof -
  from assms(2) have "filter P xs \<noteq> []"
    by (simp add: list_ex_iff filter_empty_conv)
  with assms(1) obtain r where r: "filter P xs = [r]"
    by (cases "filter P xs") auto
  then have "r \<in> set (filter P xs)" by simp
  then have "P r" by simp
  with r show thesis by (rule that)
qed

lemma filter_map_upsert:
  assumes "\<And>x. P (g x) = P x"
  shows "filter P (map (\<lambda>x. if P x then g x else x) xs) = map g (filter P xs)"
  by (induction xs) (simp_all add: assms)

lemma set_completion_key_rows:
  assumes "distinct (map log_key (challenge_logs db))"
  shows "filter (log_conflict d u c) (challenge_logs (set_challenge_completion e db u d c v)) =
         [\<lparr>log_date = d, author = u, challenge_code = c, completed = v,
           created_at = now_str e\<rparr>]"
proof (cases "list_ex (log_conflict d u c) (challenge_logs db)")
  case True
  from distinct_key_filter [OF assms, of "(d, u, c)"]
  have "length (filter (log_conflict d u c) (challenge_logs db)) \<le> 1"
    by (simp add: log_conflict_key)
  then obtain r where r: "filter (log_conflict d u c) (challenge_logs db) = [r]"
    and c: "log_conflict d u c r"
    using True by (rule filter_singleton)
  have "filter (log_conflict d u c)
          (map (\<lambda>r. if log_conflict d u c r
                     then r\<lparr>completed := v, created_at := now_str e\<rparr> else r)
             (challenge_logs db)) =
        map (\<lambda>r. r\<lparr>completed := v, created_at := now_str e\<rparr>)
          (filter (log_conflict d u c) (challenge_logs db))"
    by (rule filter_map_upsert) (simp add: log_conflict_def)
  with r c True show ?thesis
    by (simp add: set_challenge_completion_def log_conflict_def)
next
  case False
  then have "filter (log_conflict d u c) (challenge_logs db) = []"
    by (simp add: list_ex_iff filter_empty_conv)
  with False show ?thesis
    by (simp add: set_challenge_completion_def log_conflict_def)
qed

lemma unique_foldl_set_completion:
  "unique_rows db \<Longrightarrow>
   unique_rows (foldl (\<lambda>s (e, v). set_challenge_completion e s u d c v) db calls)"
  by (induction calls arbitrary: db) (auto simp: unique_set_completion)

text \<open>
  C3. From a database that satisfies the uniqueness constraints, any non-empty sequence
  of \<open>set_challenge_completion\<close> calls for one key (each call with its own clock reading
  and \<open>completed\<close> value) leaves exactly one row for that key, and the row holds the
  \<open>completed\<close> value and the time of the last call. Setting 1 twice leaves one row with
  1; setting 1 and then 0 leaves one row with 0.
\<close>

theorem set_completion_last_write_wins:
  assumes "unique_rows db" and "calls \<noteq> []"
  shows "filter (log_conflict d u c)
           (challenge_logs (foldl (\<lambda>s (e, v). set_challenge_completion e s u d c v) db calls)) =
         [\<lparr>log_date = d, author = u, challenge_code = c, completed = snd (last calls),
           created_at = now_str (fst (last calls))\<rparr>]"
proof -
  from assms(2) obtain ys e v where calls: "calls = ys @ [(e, v)]"
    by (cases calls rule: rev_cases) auto
  let ?db = "foldl (\<lambda>s (e, v). set_challenge_completion e s u d c v) db ys"
  from assms(1) have "unique_rows ?db"
    by (rule unique_foldl_set_completion)
  then have "distinct (map log_key (challenge_logs ?db))"
    by (simp add: unique_rows_def)
  from set_completion_key_rows [OF this, of d u c e v] show ?thesis
    by (simp add: calls)
qed

theorem set_completion_last_write_wins_witness:
  "unique_rows empty_database
   \<and> filter (log_conflict (strftime (jan_2024 3)) ms_h (ascii ''MOVE_10''))
     (challenge_logs (foldl
        (\<lambda>s (e, v). set_challenge_completion e s ms_h (strftime (jan_2024 3)) (ascii ''MOVE_10'') v)
        empty_database [(clock_on (jan_2024 3), 1), (clock_on (jan_2024 4), 1)])) =
   [\<lparr>log_date = strftime (jan_2024 3), author = ms_h, challenge_code = ascii ''MOVE_10'',
     completed = 1, created_at = now_str (clock_on (jan_2024 4))\<rparr>]
   \<and> filter (log_conflict (strftime (jan_2024 3)) ms_h (ascii ''MOVE_10''))
     (challenge_logs (foldl
        (\<lambda>s (e, v). set_challenge_completion e s ms_h (strftime (jan_2024 3)) (ascii ''MOVE_10'') v)
        empty_database [(clock_on (jan_2024 3), 1), (clock_on (jan_2024 4), 0)])) =
   [\<lparr>log_date = strftime (jan_2024 3), author = ms_h, challenge_code = ascii ''MOVE_10'',
     completed = 0, created_at = now_str (clock_on (jan_2024 4))\<rparr>]"
  using
    set_completion_last_write_wins [OF unique_empty,
      of "[(clock_on (jan_2024 3), 1), (clock_on (jan_2024 4), 1)]"
         "strftime (jan_2024 3)" ms_h "ascii ''MOVE_10''"]
    set_completion_last_write_wins [OF unique_empty,
      of "[(clock_on (jan_2024 3), 1), (clock_on (jan_2024 4), 0)]"
         "strftime (jan_2024 3)" ms_h "ascii ''MOVE_10''"]
    unique_empty
  by simp

section \<open>Reflections\<close>

lemma fetch_after_save:
  "fetch_reflection (save_reflection e db u d w s n) u d =
     \<lparr>get_win = strip w, get_stress_shift = strip s, get_note = strip n\<rparr>"
proof (cases "list_ex (reflection_conflict d u) (daily_reflections db)")
  case True
  let ?g = "\<lambda>r. r\<lparr>win := Some (strip w), stress_shift := Some (strip s),
                   ref_note := Some (strip n), ref_created_at := now_str e\<rparr>"
  from True obtain r rs where rs: "filter (reflection_conflict d u) (daily_reflections db) = r # rs"
    by (cases "filter (reflection_conflict d u) (daily_reflections db)")
       (auto simp: list_ex_iff filter_empty_conv)
  have "filter (reflection_conflict d u)
          (map (\<lambda>r. if reflection_conflict d u r then ?g r else r) (daily_reflections db)) =
        map ?g (filter (reflection_conflict d u) (daily_reflections db))"
    by (rule filter_map_upsert) (simp add: reflection_conflict_def)
  moreover have "(\<lambda>r. ref_author r = u \<and> ref_log_date r = d) = reflection_conflict d u"
    by (auto simp: reflection_conflict_def fun_eq_iff)
  ultimately show ?thesis
    using True rs by (simp add: fetch_reflection_def save_reflection_def or_empty_def)
next
  case False
  then have "filter (reflection_conflict d u) (daily_reflections db) = []"
    by (simp add: list_ex_iff filter_empty_conv)
  moreover have "(\<lambda>r. ref_author r = u \<and> ref_log_date r = d) = reflection_conflict d u"
    by (auto simp: reflection_conflict_def fun_eq_iff)
  ultimately show ?thesis
    using False
    by (simp add: fetch_reflection_def save_reflection_def or_empty_def reflection_conflict_def)
qed

lemma strip_ascii_letters:
  "strip (ascii ''a'') = ascii ''a''" "strip (ascii ''b'') = ascii ''b''"
  "strip (ascii ''c'') = ascii ''c''"
  by (simp_all add: strip_def ascii_def isspace_def)

text \<open>
  C5. Saving the reflection texts "a", "b", "c" for a user and a date and fetching the
  reflection of that user and date returns exactly these three texts; when the table has
  no row for the user and date, \<open>fetch_reflection\<close> returns three empty strings.
\<close>

theorem reflection_round_trip:
  "fetch_reflection (save_reflection e db u d (ascii ''a'') (ascii ''b'') (ascii ''c'')) u d =
     \<lparr>get_win = ascii ''a'', get_stress_shift = ascii ''b'', get_note = ascii ''c''\<rparr>
   \<and> (\<not> list_ex (reflection_conflict d u) (daily_reflections db) \<longrightarrow>
        fetch_reflection db u d = \<lparr>get_win = [], get_stress_shift = [], get_note = []\<rparr>)"
proof -
  have "(\<lambda>r. ref_author r = u \<and> ref_log_date r = d) = reflection_conflict d u"
    by (auto simp: reflection_conflict_def fun_eq_iff)
  then have "\<not> list_ex (reflection_conflict d u) (daily_reflections db) \<Longrightarrow>
        fetch_reflection db u d = \<lparr>get_win = [], get_stress_shift = [], get_note = []\<rparr>"
    by (simp add: fetch_reflection_def list_ex_iff filter_empty_conv)
  then show ?thesis
    by (simp add: fetch_after_save strip_ascii_letters)
qed

theorem reflection_round_trip_witness:
  "fetch_reflection
     (save_reflection (clock_on (jan_2024 3)) empty_database ms_h (strftime (jan_2024 3))
        (ascii ''a'') (ascii ''b'') (ascii ''c''))
     ms_h (strftime (jan_2024 3)) =
     \<lparr>get_win = ascii ''a'', get_stress_shift = ascii ''b'', get_note = ascii ''c''\<rparr>
   \<and> \<not> list_ex (reflection_conflict (strftime (jan_2024 3)) ms_h)
         (daily_reflections empty_database)
   \<and> fetch_reflection empty_database ms_h (strftime (jan_2024 3)) =
       \<lparr>get_win = [], get_stress_shift = [], get_note = []\<rparr>"
  using reflection_round_trip
    [of "clock_on (jan_2024 3)" empty_database ms_h "strftime (jan_2024 3)"]
  by (simp add: empty_database_def)

text \<open>
  C10. \<open>save_reflection\<close> stores each of the three texts stripped: fetching the
  reflection afterwards returns \<open>strip\<close> of each text as supplied. \<open>strip w\<close> is
  \<open>w\<close> without a leading and a trailing block of whitespace and, unless empty, neither
  begins nor ends with whitespace; " a " is read back as "a".
\<close>

theorem save_reflection_strips:
  "fetch_reflection (save_reflection e db u d w s n) u d =
     \<lparr>get_win = strip w, get_stress_shift = strip s, get_note = strip n\<rparr>
   \<and> (\<exists>l r. x = l @ strip x @ r \<and> list_all isspace l \<and> list_all isspace r)
   \<and> (strip x = [] \<or> (\<not> isspace (hd (strip x)) \<and> \<not> isspace (last (strip x))))
   \<and> fetch_reflection
        (save_reflection e db u d (ascii '' a '') (ascii '' a '') (ascii '' a '')) u d =
       \<lparr>get_win = ascii ''a'', get_stress_shift = ascii ''a'', get_note = ascii ''a''\<rparr>"
proof -
  have "strip (ascii '' a '') = ascii ''a''"
    by (simp add: strip_def ascii_def isspace_def)
  then show ?thesis
    using strip_decompose [of x] strip_ends [of x] by (simp add: fetch_after_save)
qed

section \<open>Validation\<close>

lemma require_nickname_or_stop_blank:
  "(require_nickname_or_stop nickname = Stop) = (strip nickname = [])"
  by (simp add: require_nickname_or_stop_def)

lemma first_error_None: "first_error rs = None \<longleftrightarrow> list_all (\<lambda>r. r = None) rs"
  by (induction rs rule: first_error.induct) simp_all










text \<open>\<open>save_reflection\<close> is accepted on the same condition on its six parameters.\<close>

lemma save_reflection_call_accepted:
  "(\<exists>db'. save_reflection_call e (Some db) a d w s n = Inr db') =
     (\<not> list_ex surrogate d \<and> \<not> list_ex surrogate a \<and> \<not> list_ex surrogate (strip w) \<and>
      \<not> list_ex surrogate (strip s) \<and> \<not> list_ex surrogate (strip n) \<and>
      \<not> list_ex surrogate (now_str e))"
  by (auto simp: save_reflection_call_def bind_text_def split: option.splits if_splits)

section \<open>Seeding the challenges\<close>

lemma foldl_insert_or_ignore:
  assumes "distinct (map code cs)"
  shows "foldl insert_or_ignore_challenge db cs =
         db\<lparr>challenges := challenges db @
           filter (\<lambda>c. code c \<notin> set (map code (challenges db))) cs\<rparr>"
  using assms
proof (induction cs arbitrary: db)
  case Nil
  then show ?case by simp
next
  case (Cons c cs)
  from Cons.prems have cs: "distinct (map code cs)" by simp
  show ?case
  proof (cases "code c \<in> set (map code (challenges db))")
    case True
    then have step: "insert_or_ignore_challenge db c = db"
      by (simp add: insert_or_ignore_challenge_def)
    have "foldl insert_or_ignore_challenge db (c # cs) = foldl insert_or_ignore_challenge db cs"
      by (simp only: foldl_Cons step)
    also have "\<dots> = db\<lparr>challenges := challenges db @
           filter (\<lambda>c. code c \<notin> set (map code (challenges db))) cs\<rparr>"
      using cs by (rule Cons.IH)
    finally show ?thesis using True by simp
  next
    case False
    let ?db = "db\<lparr>challenges := challenges db @ [c]\<rparr>"
    from False have step: "insert_or_ignore_challenge db c = ?db"
      by (simp add: insert_or_ignore_challenge_def)
    from Cons.prems have "code c \<notin> code ` set cs" by simp
    then have "\<forall>x\<in>set cs. code x \<noteq> code c" by (metis imageI)
    then have same: "filter (\<lambda>x. code x \<notin> set (map code (challenges ?db))) cs =
               filter (\<lambda>x. code x \<notin> set (map code (challenges db))) cs"
      by (intro filter_cong) auto
    have "foldl insert_or_ignore_challenge db (c # cs) = foldl insert_or_ignore_challenge ?db cs"
      by (simp only: foldl_Cons step)
    also have "\<dots> = ?db\<lparr>challenges := challenges ?db @
           filter (\<lambda>x. code x \<notin> set (map code (challenges ?db))) cs\<rparr>"
      using cs by (rule Cons.IH)
    also have "\<dots> = db\<lparr>challenges := challenges db @
           filter (\<lambda>c. code c \<notin> set (map code (challenges db))) (c # cs)\<rparr>"
      unfolding same using False by simp
    finally show ?thesis .
  qed
qed

lemma default_codes_distinct: "distinct (map code default_challenges)"
  by (simp add: default_challenges_def ascii_def)

lemma init_db_rows:
  "init_db db = db\<lparr>challenges := challenges db @
     filter (\<lambda>c. code c \<notin> set (map code (challenges db))) default_challenges\<rparr>"
  unfolding init_db_def by (rule foldl_insert_or_ignore [OF default_codes_distinct])

lemma init_db_has_defaults:
  "k \<in> set (map code default_challenges) \<Longrightarrow> k \<in> set (map code (challenges (init_db db)))"
  by (auto simp: init_db_rows)

lemma init_db_idempotent: "init_db (init_db db) = init_db db"
proof -
  have "filter (\<lambda>c. code c \<notin> set (map code (challenges (init_db db)))) default_challenges = []"
    using init_db_has_defaults [of _ db] by (auto simp: filter_empty_conv)
  then show ?thesis
    by (subst init_db_rows) simp
qed

lemma init_db_funpow: "0 < n \<Longrightarrow> (init_db ^^ n) db = init_db db"
proof (induction n)
  case 0
  then show ?case by simp
next
  case (Suc n)
  then show ?case by (cases "n = 0") (simp_all add: init_db_idempotent)
qed

lemma distinct_codes_foldl:
  "distinct (map code (challenges db)) \<Longrightarrow>
   distinct (map code (challenges (foldl insert_or_ignore_challenge db cs)))"
  by (induction cs arbitrary: db) (simp_all add: codes_insert_or_ignore)

text \<open>
  C8. \<open>init_db\<close> run any number of times (at least once) on a database whose
  challenge codes are unique gives the state of the first run, in which every default
  code has exactly one row; the rows that were there before stay first and unchanged, and
  the rows added are the defaults whose code was absent.
\<close>

theorem init_db_seeds_once:
  assumes "distinct (map code (challenges db))" and "0 < n"
    and "k \<in> set (map code default_challenges)"
  shows "(init_db ^^ n) db = init_db db
       \<and> length (filter (\<lambda>r. code r = k) (challenges ((init_db ^^ n) db))) = 1
       \<and> challenges (init_db db) = challenges db @
           filter (\<lambda>c. code c \<notin> set (map code (challenges db))) default_challenges"
proof -
  have n: "(init_db ^^ n) db = init_db db"
    using assms(2) by (rule init_db_funpow)
  have "distinct (map code (challenges (init_db db)))"
    unfolding init_db_def using assms(1) by (rule distinct_codes_foldl)
  then have le: "length (filter (\<lambda>r. code r = k) (challenges (init_db db))) \<le> 1"
    by (rule distinct_key_filter)
  from init_db_has_defaults [OF assms(3), of db]
  have "filter (\<lambda>r. code r = k) (challenges (init_db db)) \<noteq> []"
    by (auto simp: filter_empty_conv)
  then have "length (filter (\<lambda>r. code r = k) (challenges (init_db db))) \<noteq> 0"
    by simp
  with le have "length (filter (\<lambda>r. code r = k) (challenges (init_db db))) = 1"
    by linarith
  moreover have "challenges (init_db db) = challenges db @
           filter (\<lambda>c. code c \<notin> set (map code (challenges db))) default_challenges"
    by (subst init_db_rows) simp
  ultimately show ?thesis using n by simp
qed

theorem init_db_seeds_once_witness:
  "distinct (map code (challenges old_catalog)) \<and> (0::nat) < 2
   \<and> ascii ''MOVE_10'' \<in> set (map code default_challenges)
   \<and> (init_db ^^ 2) old_catalog = init_db old_catalog
   \<and> length (filter (\<lambda>r. code r = ascii ''MOVE_10'')
        (challenges ((init_db ^^ 2) old_catalog))) = 1
   \<and> challenges (init_db old_catalog) = challenges old_catalog @
           filter (\<lambda>c. code c \<notin> set (map code (challenges old_catalog))) default_challenges"
proof -
  have 1: "distinct (map code (challenges old_catalog))"
    by (simp add: old_catalog_def empty_database_def)
  have 2: "(0::nat) < 2" by simp
  have 3: "ascii ''MOVE_10'' \<in> set (map code default_challenges)"
    by (simp add: default_challenges_def ascii_def)
  from init_db_seeds_once [OF 1 2 3] 1 2 3 show ?thesis by blast
qed

section \<open>The streak\<close>

lemma date_sub_day_error: "date_sub_day d = Inl err \<Longrightarrow> err = OverflowError"
  by (simp add: date_sub_day_def split: if_splits)

lemma days_back_from_all:
  "list_all P (days_back_from d) =
     (if P d then (case date_sub_day d of Inl err \<Rightarrow> True
                   | Inr d' \<Rightarrow> list_all P (days_back_from d'))
      else False)"
  by (subst days_back_from.simps) (simp split: sum.splits)

lemma streak_walk_step:
  "streak_walk dates d =
     (if strftime d \<in> dates
      then (case date_sub_day d of Inl err \<Rightarrow> 1 | Inr d' \<Rightarrow> 1 + streak_walk dates d')
      else 0)"
  unfolding streak_walk_def
  by (subst days_back_from.simps) (simp split: sum.splits)

lemma streak_loop_walk:
  "streak_loop dates d acc =
     (if list_all (\<lambda>x. strftime x \<in> dates) (days_back_from d) then Inl OverflowError
      else Inr (acc + streak_walk dates d))"
proof (induction dates d acc rule: streak_loop.induct)
  case (1 dates d acc)
  show ?case
  proof (cases "strftime d \<in> dates")
    case False
    then show ?thesis
      by (subst streak_loop.simps, subst days_back_from_all, subst streak_walk_step) simp
  next
    case True
    show ?thesis
    proof (cases "date_sub_day d")
      case (Inl err)
      then have "date_sub_day d = Inl OverflowError"
        using date_sub_day_error [of d err] by simp
      with True show ?thesis
        by (subst streak_loop.simps, subst days_back_from_all, subst streak_walk_step) simp
    next
      case (Inr d')
      with True "1.IH" [OF refl True Inr] show ?thesis
        by (subst streak_loop.simps, subst days_back_from_all, subst streak_walk_step) simp
    qed
  qed
qed

lemma completed_dates_set:
  "set (select_completed_dates db u) = completion_dates db u"
  by (simp add: select_completed_dates_def completion_dates_def)

text \<open>
  When every day from today back to the first day of the calendar has a completion, the
  subtraction on \<open>date.min\<close> ends the loop with \<open>OverflowError\<close>.
\<close>

lemma compute_streak_overflow:
  "list_all (\<lambda>d. strftime d \<in> completion_dates db u) (days_back_from (date_today e)) \<Longrightarrow>
   compute_streak e db u = Inl OverflowError"
  by (simp add: compute_streak_def completed_dates_set streak_loop_walk)

text \<open>
  C1, as amended. \<open>compute_streak\<close> takes no reference date: it reads
  \<open>date.today()\<close>. When some day from today backwards has no completion of the
  author, it returns the number of days counted by walking backwards from today, one
  calendar day at a time, while the formatted day is among the author's dates with a
  completed row; in particular 0 when today has none.
\<close>

theorem compute_streak_from_today:
  assumes "\<not> list_all (\<lambda>d. strftime d \<in> completion_dates db u) (days_back_from (date_today e))"
  shows "compute_streak e db u = Inr (streak_walk (completion_dates db u) (date_today e))
       \<and> (strftime (date_today e) \<notin> completion_dates db u \<longrightarrow> compute_streak e db u = Inr 0)"
proof -
  have walk: "compute_streak e db u = Inr (streak_walk (completion_dates db u) (date_today e))"
    using assms by (simp add: compute_streak_def completed_dates_set streak_loop_walk)
  moreover have "streak_walk (completion_dates db u) (date_today e) = 0"
    if "strftime (date_today e) \<notin> completion_dates db u"
    using that by (subst streak_walk_step) simp
  ultimately show ?thesis by simp
qed

lemma three_days_logs:
  "challenge_logs three_days =
    [\<lparr>log_date = ascii ''2024-01-01'', author = ms_h, challenge_code = ascii ''MOVE_10'',
      completed = 1, created_at = ascii ''2024-01-01 09:00''\<rparr>,
     \<lparr>log_date = ascii ''2024-01-02'', author = ms_h, challenge_code = ascii ''MOVE_10'',
      completed = 1, created_at = ascii ''2024-01-02 09:00''\<rparr>,
     \<lparr>log_date = ascii ''2024-01-03'', author = ms_h, challenge_code = ascii ''MOVE_10'',
      completed = 1, created_at = ascii ''2024-01-03 09:00''\<rparr>]"
  by (simp add: three_days_def set_challenge_completion_def init_db_rows empty_database_def
        log_conflict_def clock_on_def jan_2024_def strftime_def format_year_def digits4_def
        digits2_def digit_def ascii_def)

lemma three_days_dates:
  "completion_dates three_days ms_h =
     {ascii ''2024-01-01'', ascii ''2024-01-02'', ascii ''2024-01-03''}"
  by (auto simp: completion_dates_def three_days_logs)

lemma three_days_gap:
  "\<not> list_all (\<lambda>d. strftime d \<in> completion_dates three_days ms_h)
       (days_back_from (jan_2024 3))"
  by (simp add: days_back_from_all three_days_dates date_eval)

lemma three_days_walk:
  "streak_walk (completion_dates three_days ms_h) (jan_2024 3) = 3"
  "streak_walk (completion_dates three_days ms_h) (jan_2024 4) = 0"
  by (simp_all add: streak_walk_step three_days_dates date_eval)

theorem compute_streak_from_today_witness:
  "\<not> list_all (\<lambda>d. strftime d \<in> completion_dates three_days ms_h)
       (days_back_from (date_today (clock_on (jan_2024 3))))
   \<and> compute_streak (clock_on (jan_2024 3)) three_days ms_h = Inr 3
   \<and> \<not> list_all (\<lambda>d. strftime d \<in> completion_dates three_days ms_h)
       (days_back_from (date_today (clock_on (jan_2024 4))))
   \<and> strftime (date_today (clock_on (jan_2024 4))) \<notin> completion_dates three_days ms_h
   \<and> compute_streak (clock_on (jan_2024 4)) three_days ms_h = Inr 0"
proof -
  have t3: "date_today (clock_on (jan_2024 3)) = jan_2024 3"
    and t4: "date_today (clock_on (jan_2024 4)) = jan_2024 4"
    by (simp_all add: clock_on_def)
  have g3: "\<not> list_all (\<lambda>d. strftime d \<in> completion_dates three_days ms_h)
       (days_back_from (date_today (clock_on (jan_2024 3))))"
    unfolding t3 by (rule three_days_gap)
  have n4: "strftime (date_today (clock_on (jan_2024 4))) \<notin> completion_dates three_days ms_h"
    unfolding t4 by (simp add: three_days_dates date_eval)
  then have g4: "\<not> list_all (\<lambda>d. strftime d \<in> completion_dates three_days ms_h)
       (days_back_from (date_today (clock_on (jan_2024 4))))"
    by (subst days_back_from_all) simp
  from compute_streak_from_today [OF g3]
  have a: "compute_streak (clock_on (jan_2024 3)) three_days ms_h = Inr 3"
    by (simp add: t3 three_days_walk)
  from compute_streak_from_today [OF g4] n4
  have b: "compute_streak (clock_on (jan_2024 4)) three_days ms_h = Inr 0"
    by blast
  from a b g3 g4 n4 show ?thesis by blast
qed

text \<open>
  The claim as stated fails. With completions on 1, 2 and 3 January 2024 and the clock on
  3 January, \<open>compute_streak\<close> returns 3, where the walk from a reference date of
  4 January counts 0; the same call with the clock on 4 January returns 0.
\<close>

theorem compute_streak_reads_clock_counterexample:
  "compute_streak (clock_on (jan_2024 3)) three_days ms_h = Inr 3
   \<and> streak_walk (completion_dates three_days ms_h) (jan_2024 4) = 0
   \<and> compute_streak (clock_on (jan_2024 3)) three_days ms_h \<noteq>
       Inr (streak_walk (completion_dates three_days ms_h) (jan_2024 4))
   \<and> compute_streak (clock_on (jan_2024 4)) three_days ms_h = Inr 0"
proof -
  have "\<not> list_all (\<lambda>d. strftime d \<in> completion_dates three_days ms_h)
       (days_back_from (jan_2024 4))"
    by (simp add: days_back_from_all three_days_dates date_eval)
  then show ?thesis
    using three_days_gap
    by (simp add: compute_streak_def completed_dates_set streak_loop_walk three_days_walk
          clock_on_def)
qed

section \<open>The count over a range of dates\<close>

















text \<open>
  Below the year 1000 the formatted year is shorter and the text order is not the order
  of the dates: a completed row of 1 January 1000 is not counted between
  31 December 999 and 2 January 1000.
\<close>

lemma short_year_not_counted:
  "completed_count_in_range year_1000 ms_h
     \<lparr>year = 999, month = 12, day = 31\<rparr> \<lparr>year = 1000, month = 1, day = 2\<rparr> = 0"
  by (simp add: completed_count_in_range_def year_1000_def set_challenge_completion_def
        empty_database_def strftime_def format_year_def digits4_def digits3_def digits2_def
        digit_def)

section \<open>The examples of the specification, run on the code\<close>

text \<open>
  The normaliser example; the streak with a gap, of three days, on the day after, and of
  a user without logs, each computed by the loop itself.
\<close>

lemma clean_nickname_example:
  "clean_nickname (Some (ascii ''  Ms. H!! '')) = ascii ''Ms H''"
  by (simp add: clean_nickname_def strip_def isspace_def nickname_char_def ascii_def)

lemma gap_days_logs:
  "challenge_logs gap_days =
    [\<lparr>log_date = ascii ''2024-01-01'', author = ms_h, challenge_code = ascii ''MOVE_10'',
      completed = 1, created_at = ascii ''2024-01-01 09:00''\<rparr>,
     \<lparr>log_date = ascii ''2024-01-03'', author = ms_h, challenge_code = ascii ''MOVE_10'',
      completed = 1, created_at = ascii ''2024-01-03 09:00''\<rparr>]"
  by (simp add: gap_days_def set_challenge_completion_def init_db_rows empty_database_def
        log_conflict_def date_eval)

lemma gap_breaks_streak:
  "compute_streak (clock_on (jan_2024 3)) gap_days ms_h = Inr 1"
  by (simp add: compute_streak_def select_completed_dates_def gap_days_logs
        streak_loop.simps date_eval)

lemma three_days_streak_by_loop:
  "compute_streak (clock_on (jan_2024 3)) three_days ms_h = Inr 3"
  "compute_streak (clock_on (jan_2024 4)) three_days ms_h = Inr 0"
  by (simp_all add: compute_streak_def select_completed_dates_def three_days_logs
        streak_loop.simps date_eval)

lemma no_logs_no_streak:
  "compute_streak e (init_db empty_database) u = Inr 0"
  by (simp add: compute_streak_def select_completed_dates_def init_db_rows empty_database_def
        streak_loop.simps)

end
